theory Spec2Isabelle
  imports Main "HOL-Library.Word"
begin

section \<open>Data model\<close>

text \<open>
  Package \<open>gaia_processor\<close> (file \<open>processor.go\<close>) holds the module registry and the
  dispatch and flush loop of the trace listener. Byte slices are lists of bytes, a Go
  \<open>error\<close> is a value of the datatype \<open>error\<close> (\<open>nil\<close> is \<open>None\<close>), and \<open>uint64\<close> is
  \<open>64 word\<close>.
\<close>

type_synonym bytes = "8 word list"

datatype error = Errorf string

datatype Operation = WriteOp | ReadOp

text \<open>
  Modelled from the spec: the type \<open>tracelistener.TraceOperation\<close> is declared in package
  \<open>tracelistener\<close>, which is not among the source files. The spec's data model gives its
  fields; \<open>processor.go\<close> reads \<open>BlockHeight\<close> and \<open>Key\<close>.
\<close>

record TraceOperation =
  Operation :: Operation
  Key :: bytes
  Value :: bytes
  BlockHeight :: "64 word"
  Metadata :: "bytes option"

text \<open>
  Modelled from the spec: \<open>tracelistener.WritebackOp\<close> is declared in package
  \<open>tracelistener\<close> too. \<open>processor.go\<close> reads and writes its field \<open>Data\<close>, a slice of
  rows, and compares it with \<open>nil\<close>: the nil slice is \<open>None\<close>, a slice that is allocated is
  \<open>Some rows\<close> (\<open>Some []\<close> is the empty slice that is not nil). A slice is modelled by
  its contents: the slices a module hands over are taken not to share their arrays.
  The test file fills the field \<open>DatabaseExec\<close>, the statement template.
\<close>

record 'row WritebackOp =
  DatabaseExec :: string
  Data :: "'row list option"

text \<open>
  The interface \<open>Module\<close> of \<open>processor.go\<close>. Its implementations are not among the source
  files, so a module is a record of its five methods and of its private state \<open>cache\<close>:
  \<open>FlushCache\<close> and \<open>Process\<close> read the state and return the new one, \<open>ModuleName\<close> and
  \<open>TableSchema\<close> are constants of the module and \<open>OwnsKey\<close> is a predicate of the key alone
  (the spec's contract of a module: pure and total).
\<close>

record ('s, 'row) Module =
  ModuleName :: string
  TableSchema :: string
  OwnsKey :: "bytes \<Rightarrow> bool"
  Process :: "TraceOperation \<Rightarrow> 's \<Rightarrow> error option \<times> 's"
  FlushCache :: "'s \<Rightarrow> 'row WritebackOp list \<times> 's"
  cache :: 's

text \<open>
  The struct \<open>Processor\<close>. The two channels and the logger are not fields of the model:
  what the loop receives on \<open>writeChan\<close> is its input, the list of operations sent before
  the channel is closed, and what it sends and logs is its output, a list of events in
  program order. The codec \<open>cdc\<close> is never read by the code modelled here.
\<close>

record ('s, 'row) Processor =
  migrations :: "string list"
  lastHeight :: "64 word"
  chainName :: string
  moduleProcessors :: "('s, 'row) Module list"

text \<open>
  The effects of the loop that another component can observe, in the order the code
  performs them: a call of a module's \<open>FlushCache\<close>, a send on \<open>writebackChan\<close>, the log line
  \<open>processed new block\<close> with the height it prints, a call of a module's \<open>Process\<close>, and the
  log line \<open>error while processing data\<close> with the error, the operation and the module name.
\<close>

datatype 'row event =
    FlushCacheCall string
  | Send "'row WritebackOp list"
  | Infow "64 word"
  | ProcessCall string TraceOperation
  | Errorw error TraceOperation string

section \<open>The registry\<close>

text \<open>
  \<open>AddModule\<close> (lines 92 to 103): the loop returns at the first registered module of the same
  name, before the append. The error and the processor are returned together.
\<close>

fun AddModule_loop :: "string \<Rightarrow> ('s, 'row) Module list \<Rightarrow> error option" where
  "AddModule_loop mn [] = None"
| "AddModule_loop mn (em # ems) =
     (if ModuleName em = mn
      then Some (Errorf (''cannot add module '' @ mn @ '' more than one time''))
      else AddModule_loop mn ems)"

definition AddModule ::
  "('s, 'row) Processor \<Rightarrow> ('s, 'row) Module \<Rightarrow> error option \<times> ('s, 'row) Processor" where
  "AddModule p m =
     (let mn = ModuleName m in
      case AddModule_loop mn (moduleProcessors p) of
        Some err \<Rightarrow> (Some err, p)
      | None \<Rightarrow> (None, p\<lparr>moduleProcessors := moduleProcessors p @ [m]\<rparr>))"

section \<open>The dispatch and flush loop\<close>

text \<open>
  The method \<open>WithChainName\<close> of a row (interface \<open>models.DatabaseEntrier\<close>, outside the
  source files) is the first parameter \<open>W\<close> of the functions below: \<open>W r cn\<close> is
  \<open>r.WithChainName(cn)\<close>.

  Lines 150 to 152: every row of the entry is replaced by its stamped copy. On the nil
  slice the loop runs zero times.
\<close>

definition stamp ::
  "('row \<Rightarrow> string \<Rightarrow> 'row) \<Rightarrow> string \<Rightarrow> 'row WritebackOp \<Rightarrow> 'row WritebackOp" where
  "stamp W cn entry = entry\<lparr>Data := map_option (map (\<lambda>r. W r cn)) (Data entry)\<rparr>"

text \<open>
  Lines 145 to 154, the loop over the batches \<open>cd\<close> one module returned: an entry whose
  \<open>Data\<close> is nil is skipped, any other entry is stamped and appended to \<open>wb\<close>.
\<close>

fun appendEntries ::
  "('row \<Rightarrow> string \<Rightarrow> 'row) \<Rightarrow> string \<Rightarrow> 'row WritebackOp list \<Rightarrow>
   'row WritebackOp list \<Rightarrow> 'row WritebackOp list" where
  "appendEntries W cn [] wb = wb"
| "appendEntries W cn (entry # cd) wb =
     (if Data entry = None then appendEntries W cn cd wb
      else appendEntries W cn cd (wb @ [stamp W cn entry]))"

text \<open>
  Lines 143 to 155, the loop over the registry: each module's \<open>FlushCache\<close> is called on its
  state, and the module keeps the state the call returns. The result is the events, the
  registry after the calls and the aggregate \<open>wb\<close>.
\<close>

fun flushModules ::
  "('row \<Rightarrow> string \<Rightarrow> 'row) \<Rightarrow> string \<Rightarrow> ('s, 'row) Module list \<Rightarrow>
   'row WritebackOp list \<Rightarrow>
   'row event list \<times> ('s, 'row) Module list \<times> 'row WritebackOp list" where
  "flushModules W cn [] wb = ([], [], wb)"
| "flushModules W cn (mp # mps) wb =
     (case FlushCache mp (cache mp) of (cd, s') \<Rightarrow>
        (case flushModules W cn mps (appendEntries W cn cd wb) of (evs, mps', wb') \<Rightarrow>
           (FlushCacheCall (ModuleName mp) # evs, mp\<lparr>cache := s'\<rparr> # mps', wb')))"

text \<open>
  Lines 164 to 176, the dispatch of one operation: a module that does not own the key is
  passed over; an owner's \<open>Process\<close> is called, and its error, if any, is logged before
  the loop goes on with the next module.
\<close>

fun dispatch ::
  "TraceOperation \<Rightarrow> ('s, 'row) Module list \<Rightarrow> 'row event list \<times> ('s, 'row) Module list" where
  "dispatch data [] = ([], [])"
| "dispatch data (mp # mps) =
     (if \<not> OwnsKey mp (Key data)
      then (case dispatch data mps of (evs, mps') \<Rightarrow> (evs, mp # mps'))
      else
        (case Process mp data (cache mp) of (err, s') \<Rightarrow>
           (case dispatch data mps of (evs, mps') \<Rightarrow>
              (ProcessCall (ModuleName mp) data #
                 (case err of None \<Rightarrow> [] | Some e \<Rightarrow> [Errorw e data (ModuleName mp)]) @ evs,
               mp\<lparr>cache := s'\<rparr> # mps'))))"

text \<open>
  Lines 140 to 162, the flush at a height boundary: the aggregate starts empty, is sent
  on \<open>writebackChan\<close> once the registry has been flushed, the log line prints the old
  watermark, and the watermark takes the height of the operation. The send is on an
  unbuffered channel: the model takes it that the consumer receives.
\<close>

definition flush ::
  "('row \<Rightarrow> string \<Rightarrow> 'row) \<Rightarrow> ('s, 'row) Processor \<Rightarrow> TraceOperation \<Rightarrow>
   'row event list \<times> ('s, 'row) Processor" where
  "flush W p data =
     (if BlockHeight data \<noteq> lastHeight p \<and> BlockHeight data \<noteq> 0
      then
        (case flushModules W (chainName p) (moduleProcessors p) [] of (evs, mps, wb) \<Rightarrow>
           (evs @ [Send wb, Infow (lastHeight p)],
            p\<lparr>moduleProcessors := mps, lastHeight := BlockHeight data\<rparr>))
      else ([], p))"

text \<open>Lines 139 to 177, the body of the loop for one operation received.\<close>

definition lifecycle_step ::
  "('row \<Rightarrow> string \<Rightarrow> 'row) \<Rightarrow> ('s, 'row) Processor \<Rightarrow> TraceOperation \<Rightarrow>
   'row event list \<times> ('s, 'row) Processor" where
  "lifecycle_step W p data =
     (case flush W p data of (evs1, p1) \<Rightarrow>
        (case dispatch data (moduleProcessors p1) of (evs2, mps) \<Rightarrow>
           (evs1 @ evs2, p1\<lparr>moduleProcessors := mps\<rparr>)))"

text \<open>
  \<open>lifecycle\<close>: the loop over the operations received on \<open>writeChan\<close> until it is closed.
\<close>

fun lifecycle ::
  "('row \<Rightarrow> string \<Rightarrow> 'row) \<Rightarrow> ('s, 'row) Processor \<Rightarrow> TraceOperation list \<Rightarrow>
   'row event list \<times> ('s, 'row) Processor" where
  "lifecycle W p [] = ([], p)"
| "lifecycle W p (data # rest) =
     (case lifecycle_step W p data of (evs1, p1) \<Rightarrow>
        (case lifecycle W p1 rest of (evs2, p2) \<Rightarrow> (evs1 @ evs2, p2)))"

text \<open>Projections of a list of events: the batches sent, and the calls of \<open>Process\<close>.\<close>

fun sends :: "'row event list \<Rightarrow> 'row WritebackOp list list" where
  "sends [] = []"
| "sends (Send wb # evs) = wb # sends evs"
| "sends (_ # evs) = sends evs"

fun processCalls :: "'row event list \<Rightarrow> (string \<times> TraceOperation) list" where
  "processCalls [] = []"
| "processCalls (ProcessCall n d # evs) = (n, d) # processCalls evs"
| "processCalls (_ # evs) = processCalls evs"

text \<open>
  What the modules of a registry return from \<open>FlushCache\<close>, in registry order, each module
  called on its own state.
\<close>

definition flushed :: "('s, 'row) Module list \<Rightarrow> 'row WritebackOp list" where
  "flushed mps = concat (map (\<lambda>mp. fst (FlushCache mp (cache mp))) mps)"

text \<open>The calls of \<open>FlushCache\<close> in a list of events, by module name.\<close>

fun flushCalls :: "'row event list \<Rightarrow> string list" where
  "flushCalls [] = []"
| "flushCalls (FlushCacheCall n # evs) = n # flushCalls evs"
| "flushCalls (_ # evs) = flushCalls evs"

text \<open>
  Lines 165 to 175 for one module: the events of the loop body, and the module after it.
\<close>

definition dispatch_events :: "TraceOperation \<Rightarrow> ('s, 'row) Module \<Rightarrow> 'row event list" where
  "dispatch_events data mp =
     (if OwnsKey mp (Key data)
      then ProcessCall (ModuleName mp) data #
             (case fst (Process mp data (cache mp)) of
                None \<Rightarrow> [] | Some e \<Rightarrow> [Errorw e data (ModuleName mp)])
      else [])"

definition dispatch_module :: "TraceOperation \<Rightarrow> ('s, 'row) Module \<Rightarrow> ('s, 'row) Module" where
  "dispatch_module data mp =
     (if OwnsKey mp (Key data) then mp\<lparr>cache := snd (Process mp data (cache mp))\<rparr> else mp)"

text \<open>
  The modules of a registry that own the key of an operation, in registry order, each
  paired with the operation: the calls of \<open>Process\<close> the operation is due.
\<close>

definition owners ::
  "('s, 'row) Module list \<Rightarrow> TraceOperation \<Rightarrow> (string \<times> TraceOperation) list" where
  "owners mps data =
     map (\<lambda>mp. (ModuleName mp, data)) (filter (\<lambda>mp. OwnsKey mp (Key data)) mps)"

text \<open>
  The number of operations of a stream at which the condition of line 140 holds, the
  watermark being updated as line 161 does.
\<close>

fun transitions :: "64 word \<Rightarrow> TraceOperation list \<Rightarrow> nat" where
  "transitions h [] = 0"
| "transitions h (data # rest) =
     (if BlockHeight data \<noteq> h \<and> BlockHeight data \<noteq> 0
      then Suc (transitions (BlockHeight data) rest)
      else transitions h rest)"

section \<open>Construction\<close>

text \<open>
  The configuration \<open>config.Config\<close> is declared outside the source files; \<open>New\<close> reads its
  fields \<open>Gaia.ProcessorsEnabled\<close>, a slice of names that may be nil, and \<open>ChainName\<close>.
\<close>

record GaiaConfig =
  ProcessorsEnabled :: "string list option"

record Config =
  Gaia :: GaiaConfig
  ChainName :: string

text \<open>
  The eight module types that \<open>processorByName\<close> names are declared outside the source
  files. A value of \<open>Processors\<close> gives, for each of them, the instance that the
  corresponding case of the switch constructs (empty caches, the logger); its
  \<open>ModuleName\<close> is the name the case compares with.
\<close>

record ('s, 'row) Processors =
  bankProcessor :: "('s, 'row) Module"
  ibcConnectionsProcessor :: "('s, 'row) Module"
  liquidityPoolProcessor :: "('s, 'row) Module"
  liquiditySwapsProcessor :: "('s, 'row) Module"
  delegationsProcessor :: "('s, 'row) Module"
  ibcDenomTracesProcessor :: "('s, 'row) Module"
  ibcChannelsProcessor :: "('s, 'row) Module"
  authProcessor :: "('s, 'row) Module"

text \<open>
  \<open>processorByName\<close> (lines 105 to 136): a Go switch tries its cases from top to bottom and
  takes the default last, wherever it is written.
\<close>

definition processorByName ::
  "('s, 'row) Processors \<Rightarrow> string \<Rightarrow> error + ('s, 'row) Module" where
  "processorByName ps name =
     (if name = ModuleName (bankProcessor ps) then Inr (bankProcessor ps)
      else if name = ModuleName (ibcConnectionsProcessor ps) then Inr (ibcConnectionsProcessor ps)
      else if name = ModuleName (liquidityPoolProcessor ps) then Inr (liquidityPoolProcessor ps)
      else if name = ModuleName (liquiditySwapsProcessor ps) then Inr (liquiditySwapsProcessor ps)
      else if name = ModuleName (delegationsProcessor ps) then Inr (delegationsProcessor ps)
      else if name = ModuleName (ibcDenomTracesProcessor ps) then Inr (ibcDenomTracesProcessor ps)
      else if name = ModuleName (ibcChannelsProcessor ps) then Inr (ibcChannelsProcessor ps)
      else if name = ModuleName (authProcessor ps) then Inr (authProcessor ps)
      else Inl (Errorf (''unkonwn Processor '' @ name)))"

text \<open>Lines 56 to 58: the default list replaces a nil list only.\<close>

definition enabled :: "Config \<Rightarrow> string list" where
  "enabled cfg =
     (case ProcessorsEnabled (Gaia cfg) of
        None \<Rightarrow> [''bank'', ''delegations'', ''auth'']
      | Some names \<Rightarrow> names)"

text \<open>Lines 63 to 71: the loop returns at the first name that has no processor.\<close>

fun New_loop ::
  "('s, 'row) Processors \<Rightarrow> string list \<Rightarrow> ('s, 'row) Module list \<Rightarrow> string list \<Rightarrow>
   error + ('s, 'row) Module list \<times> string list" where
  "New_loop ps [] mp tableSchemas = Inr (mp, tableSchemas)"
| "New_loop ps (ep # eps) mp tableSchemas =
     (case processorByName ps ep of
        Inl err \<Rightarrow> Inl err
      | Inr p \<Rightarrow> New_loop ps eps (mp @ [p]) (tableSchemas @ [TableSchema p]))"

text \<open>
  \<open>New\<close> (lines 53 to 90). The result \<open>Inr p\<close> is the processor on which \<open>New\<close> has started
  the goroutine \<open>lifecycle\<close> (line 87), with the zero watermark; on \<open>Inl\<close> the function has
  returned from inside the loop, before line 87.
\<close>

definition New :: "('s, 'row) Processors \<Rightarrow> Config \<Rightarrow> error + ('s, 'row) Processor" where
  "New ps cfg =
     (case New_loop ps (enabled cfg) [] [] of
        Inl err \<Rightarrow> Inl err
      | Inr (mp, tableSchemas) \<Rightarrow>
          Inr \<lparr>migrations = tableSchemas, lastHeight = 0, chainName = ChainName cfg,
               moduleProcessors = mp\<rparr>)"

text \<open>\<open>DatabaseMigrations\<close> (lines 45 to 47).\<close>

definition DatabaseMigrations :: "('s, 'row) Processor \<Rightarrow> string list" where
  "DatabaseMigrations p = migrations p"

section \<open>The batch splitter\<close>

text \<open>
  Modelled from the spec: the method \<open>SplitStatements\<close> of \<open>tracelistener.WritebackOp\<close> is
  not among the source files; the second source file holds its test only. The model
  follows section 4.4 of the spec. The number \<open>f\<close> of bound parameters of one row is a
  parameter. When \<open>f\<close> exceeds the limit the call panics. The spec computes \<open>limit / f\<close>
  and says nothing of \<open>f = 0\<close>; a Go integer division by zero panics, and so does the
  model. When the limit is a multiple of \<open>f\<close> the rows are cut into consecutive groups of
  \<open>limit / f\<close> rows, the last group possibly shorter; otherwise each row is a batch of its
  own. Every batch keeps the statement template.
\<close>

datatype panic = FieldsExceedLimit | DivideByZero

function chunks :: "nat \<Rightarrow> 'a list \<Rightarrow> 'a list list" where
  "chunks n xs = (if n = 0 \<or> xs = [] then [] else take n xs # chunks n (drop n xs))"
  by pat_completeness auto
termination
  by (relation "measure (\<lambda>(n, xs). length xs)") auto

declare chunks.simps [simp del]

text \<open>The rows of a batch: a nil slice has none.\<close>

definition rowsOf :: "'row WritebackOp \<Rightarrow> 'row list" where
  "rowsOf wo = (case Data wo of None \<Rightarrow> [] | Some rows \<Rightarrow> rows)"

definition SplitStatements ::
  "nat \<Rightarrow> int \<Rightarrow> 'row WritebackOp \<Rightarrow> panic + 'row WritebackOp list" where
  "SplitStatements f limit wo =
     (if limit < int f then Inl FieldsExceedLimit
      else if f = 0 then Inl DivideByZero
      else
        (let rowsPerStatement = nat (limit div int f) in
         if limit mod int f = 0
         then Inr (map (\<lambda>rows. wo\<lparr>Data := Some rows\<rparr>) (chunks rowsPerStatement (rowsOf wo)))
         else Inr (map (\<lambda>row. wo\<lparr>Data := Some [row]\<rparr>) (rowsOf wo))))"

section \<open>Example inputs\<close>

text \<open>
  The row type of the test file, \<open>testDatabaseEntrier\<close> (lines 71 to 78 of the second source
  file), with its method \<open>WithChainName\<close>, which stores the chain name in the copy it
  returns.
\<close>

record testDatabaseEntrier =
  cn :: string

definition WithChainName :: "testDatabaseEntrier \<Rightarrow> string \<Rightarrow> testDatabaseEntrier" where
  "WithChainName t c = t\<lparr>cn := c\<rparr>"

text \<open>
  Modules to run the loop on. A module of \<open>exampleModule\<close> caches one row for each
  operation with a value, fails on an empty value, and on a flush returns one batch of
  the cached rows, or no batch when it has cached nothing. The module \<open>auth\<close> owns the
  keys that start with byte 1 or 2, the module \<open>bank\<close> those that start with byte 2.
\<close>

definition exampleModule ::
  "string \<Rightarrow> (bytes \<Rightarrow> bool) \<Rightarrow> (testDatabaseEntrier list, testDatabaseEntrier) Module" where
  "exampleModule name owns =
     \<lparr>ModuleName = name,
      TableSchema = ''CREATE TABLE IF NOT EXISTS '' @ name,
      OwnsKey = owns,
      Process = (\<lambda>d s. if Value d = [] then (Some (Errorf ''empty value''), s)
                         else (None, s @ [\<lparr>cn = ''''\<rparr>])),
      FlushCache =
        (\<lambda>s. (if s = [] then [] else [\<lparr>DatabaseExec = ''upsert'', Data = Some s\<rparr>], [])),
      cache = []\<rparr>"

definition exampleAuth :: "(testDatabaseEntrier list, testDatabaseEntrier) Module" where
  "exampleAuth = exampleModule ''auth'' (\<lambda>k. take 1 k = [1] \<or> take 1 k = [2])"

definition exampleBank :: "(testDatabaseEntrier list, testDatabaseEntrier) Module" where
  "exampleBank = exampleModule ''bank'' (\<lambda>k. take 1 k = [2])"

definition exampleProcessor :: "(testDatabaseEntrier list, testDatabaseEntrier) Processor" where
  "exampleProcessor =
     \<lparr>migrations = [TableSchema exampleAuth, TableSchema exampleBank], lastHeight = 0,
      chainName = ''cosmoshub'', moduleProcessors = [exampleAuth, exampleBank]\<rparr>"

text \<open>
  Operations at a given height: one that only \<open>auth\<close> owns, one that both modules own, and
  one that both own and both fail on.
\<close>

definition authOp :: "64 word \<Rightarrow> TraceOperation" where
  "authOp h =
     \<lparr>Operation = WriteOp, Key = [1, 5], Value = [7], BlockHeight = h, Metadata = None\<rparr>"

definition exampleOp :: "64 word \<Rightarrow> TraceOperation" where
  "exampleOp h =
     \<lparr>Operation = WriteOp, Key = [2, 1], Value = [7], BlockHeight = h, Metadata = None\<rparr>"

definition failingOp :: "64 word \<Rightarrow> TraceOperation" where
  "failingOp h =
     \<lparr>Operation = WriteOp, Key = [2, 1], Value = [], BlockHeight = h, Metadata = None\<rparr>"

text \<open>
  Two more modules, after the two shapes of \<open>FlushCache\<close> a module can have: \<open>delegations\<close>
  always returns an insert batch whose slice is allocated, rows or not, and a delete batch
  whose slice is nil; \<open>ibc\<close> returns one batch, with a nil slice when it has cached nothing.
\<close>

definition exampleDelegations :: "(testDatabaseEntrier list, testDatabaseEntrier) Module" where
  "exampleDelegations =
     (exampleModule ''delegations'' (\<lambda>k. take 1 k = [3]))
       \<lparr>FlushCache := (\<lambda>s. ([\<lparr>DatabaseExec = ''insert'', Data = Some s\<rparr>,
                               \<lparr>DatabaseExec = ''delete'', Data = None\<rparr>], []))\<rparr>"

definition exampleIbc :: "(testDatabaseEntrier list, testDatabaseEntrier) Module" where
  "exampleIbc =
     (exampleModule ''ibc'' (\<lambda>k. take 1 k = [4]))
       \<lparr>FlushCache :=
          (\<lambda>s. ([\<lparr>DatabaseExec = ''upsert'', Data = (if s = [] then None else Some s)\<rparr>], []))\<rparr>"

text \<open>
  A value of \<open>Processors\<close> for the examples, and the batch of four rows that the test of
  \<open>SplitStatements\<close> splits, here with rows that differ.
\<close>

definition exampleProcessors :: "(testDatabaseEntrier list, testDatabaseEntrier) Processors" where
  "exampleProcessors =
     \<lparr>bankProcessor = exampleBank,
      ibcConnectionsProcessor = exampleModule ''ibcconnections'' (\<lambda>k. take 1 k = [5]),
      liquidityPoolProcessor = exampleModule ''liquiditypool'' (\<lambda>k. take 1 k = [6]),
      liquiditySwapsProcessor = exampleModule ''liquidityswaps'' (\<lambda>k. take 1 k = [7]),
      delegationsProcessor = exampleDelegations,
      ibcDenomTracesProcessor = exampleModule ''ibcdenomtraces'' (\<lambda>k. take 1 k = [8]),
      ibcChannelsProcessor = exampleIbc,
      authProcessor = exampleAuth\<rparr>"

definition exampleBatch :: "testDatabaseEntrier WritebackOp" where
  "exampleBatch =
     \<lparr>DatabaseExec = ''statement'',
      Data = Some [\<lparr>cn = ''a''\<rparr>, \<lparr>cn = ''b''\<rparr>, \<lparr>cn = ''c''\<rparr>, \<lparr>cn = ''d''\<rparr>]\<rparr>"

section \<open>Theorems\<close>

lemmas example_defs =
  exampleProcessor_def exampleAuth_def exampleBank_def exampleModule_def
  authOp_def exampleOp_def failingOp_def WithChainName_def
  exampleDelegations_def exampleIbc_def

subsection \<open>The registry\<close>

lemma AddModule_loop_None:
  "AddModule_loop mn ms = None \<longleftrightarrow> mn \<notin> ModuleName ` set ms"
  by (induction ms) auto

lemma AddModule_loop_Some:
  "mn \<in> ModuleName ` set ms \<Longrightarrow>
   AddModule_loop mn ms = Some (Errorf (''cannot add module '' @ mn @ '' more than one time''))"
  by (induction ms) auto

text \<open>
  Claim C7. \<open>AddModule m\<close> returns an error and leaves the processor, and so the registry,
  as it was when a registered module has the name of \<open>m\<close>; otherwise it returns no error
  and the registry is the old one with \<open>m\<close> appended at its end.
\<close>

theorem AddModule_duplicate_or_append:
  "AddModule p m =
     (if ModuleName m \<in> ModuleName ` set (moduleProcessors p)
      then (Some (Errorf (''cannot add module '' @ ModuleName m @ '' more than one time'')), p)
      else (None, p\<lparr>moduleProcessors := moduleProcessors p @ [m]\<rparr>))"
proof (cases "ModuleName m \<in> ModuleName ` set (moduleProcessors p)")
  case True
  then show ?thesis
    by (simp add: AddModule_def AddModule_loop_Some)
next
  case False
  then have "AddModule_loop (ModuleName m) (moduleProcessors p) = None"
    by (simp add: AddModule_loop_None)
  with False show ?thesis
    by (simp add: AddModule_def)
qed

theorem AddModule_duplicate_or_append_witness:
  "AddModule exampleProcessor exampleBank =
     (Some (Errorf ''cannot add module bank more than one time''), exampleProcessor)
   \<and> AddModule exampleProcessor exampleIbc =
     (None, exampleProcessor\<lparr>moduleProcessors := [exampleAuth, exampleBank, exampleIbc]\<rparr>)"
  using AddModule_duplicate_or_append [of exampleProcessor exampleBank]
    AddModule_duplicate_or_append [of exampleProcessor exampleIbc]
  by (simp add: exampleProcessor_def exampleAuth_def exampleBank_def exampleIbc_def
      exampleModule_def)

subsection \<open>The loops as maps and filters\<close>

lemma appendEntries_eq:
  "appendEntries W chain cd wb = wb @ map (stamp W chain) (filter (\<lambda>e. Data e \<noteq> None) cd)"
  by (induction cd arbitrary: wb) auto

lemma flushModules_events:
  "fst (flushModules W chain mps wb) = map (\<lambda>mp. FlushCacheCall (ModuleName mp)) mps"
  by (induction mps arbitrary: wb) (simp_all add: case_prod_unfold)

lemma flushModules_registry:
  "fst (snd (flushModules W chain mps wb)) =
     map (\<lambda>mp. mp\<lparr>cache := snd (FlushCache mp (cache mp))\<rparr>) mps"
  by (induction mps arbitrary: wb) (simp_all add: case_prod_unfold)

lemma flushModules_aggregate:
  "snd (snd (flushModules W chain mps wb)) =
     wb @ map (stamp W chain) (filter (\<lambda>e. Data e \<noteq> None) (flushed mps))"
  by (induction mps arbitrary: wb) (simp_all add: case_prod_unfold flushed_def appendEntries_eq)

lemma dispatch_events_eq:
  "fst (dispatch data mps) = concat (map (dispatch_events data) mps)"
  by (induction mps) (simp_all add: case_prod_unfold dispatch_events_def)

lemma dispatch_registry:
  "snd (dispatch data mps) =
     map (\<lambda>mp. if OwnsKey mp (Key data)
                then mp\<lparr>cache := snd (Process mp data (cache mp))\<rparr> else mp) mps"
  by (induction mps) (simp_all add: case_prod_unfold)

lemma lifecycle_append:
  "lifecycle W p (xs @ ys) =
     (fst (lifecycle W p xs) @ fst (lifecycle W (snd (lifecycle W p xs)) ys),
      snd (lifecycle W (snd (lifecycle W p xs)) ys))"
  by (induction xs arbitrary: p) (simp_all add: case_prod_unfold)

lemma processCalls_append: "processCalls (xs @ ys) = processCalls xs @ processCalls ys"
  by (induction xs rule: processCalls.induct) simp_all

lemma sends_append: "sends (xs @ ys) = sends xs @ sends ys"
  by (induction xs rule: sends.induct) simp_all

lemma flushCalls_append: "flushCalls (xs @ ys) = flushCalls xs @ flushCalls ys"
  by (induction xs rule: flushCalls.induct) simp_all

lemma processCalls_flush_events:
  "processCalls (map (\<lambda>mp. FlushCacheCall (ModuleName mp)) mps) = []"
  by (induction mps) simp_all

lemma sends_flush_events: "sends (map (\<lambda>mp. FlushCacheCall (ModuleName mp)) mps) = []"
  by (induction mps) simp_all

lemma processCalls_dispatch: "processCalls (fst (dispatch data mps)) = owners mps data"
  by (induction mps) (simp_all add: case_prod_unfold owners_def split: option.splits)

lemma sends_dispatch: "sends (fst (dispatch data mps)) = []"
  by (induction mps) (simp_all add: case_prod_unfold split: option.splits)

lemma flushCalls_dispatch: "flushCalls (fst (dispatch data mps)) = []"
  by (induction mps) (simp_all add: case_prod_unfold split: option.splits)

lemma flush_transition:
  "BlockHeight data \<noteq> lastHeight p \<Longrightarrow> BlockHeight data \<noteq> 0 \<Longrightarrow>
   flush W p data =
     (map (\<lambda>mp. FlushCacheCall (ModuleName mp)) (moduleProcessors p) @
      [Send (map (stamp W (chainName p)) (filter (\<lambda>e. Data e \<noteq> None) (flushed (moduleProcessors p)))),
       Infow (lastHeight p)],
      p\<lparr>moduleProcessors :=
           map (\<lambda>mp. mp\<lparr>cache := snd (FlushCache mp (cache mp))\<rparr>) (moduleProcessors p),
         lastHeight := BlockHeight data\<rparr>)"
  using flushModules_events [of W "chainName p" "moduleProcessors p" "[]"]
    flushModules_registry [of W "chainName p" "moduleProcessors p" "[]"]
    flushModules_aggregate [of W "chainName p" "moduleProcessors p" "[]"]
  by (simp add: flush_def case_prod_unfold)

lemma flush_idle:
  "BlockHeight data = 0 \<or> BlockHeight data = lastHeight p \<Longrightarrow> flush W p data = ([], p)"
  by (auto simp: flush_def)

lemma lifecycle_step_events:
  "fst (lifecycle_step W p data) =
     fst (flush W p data) @ fst (dispatch data (moduleProcessors (snd (flush W p data))))"
  by (simp add: lifecycle_step_def case_prod_unfold)

lemma lifecycle_Cons_events:
  "fst (lifecycle W p (data # rest)) =
     fst (lifecycle_step W p data) @ fst (lifecycle W (snd (lifecycle_step W p data)) rest)"
  by (simp add: case_prod_unfold)

lemma processCalls_step_subset:
  "snd ` set (processCalls (fst (lifecycle_step W p data))) \<subseteq> {data}"
  by (cases "BlockHeight data \<noteq> lastHeight p \<and> BlockHeight data \<noteq> 0")
     (auto simp: lifecycle_step_events flush_transition flush_idle processCalls_append
        processCalls_flush_events processCalls_dispatch owners_def)

lemma processCalls_lifecycle_subset:
  "snd ` set (processCalls (fst (lifecycle W p ds))) \<subseteq> set ds"
proof (induction ds arbitrary: p)
  case Nil
  then show ?case by simp
next
  case (Cons d ds)
  have "snd ` set (processCalls (fst (lifecycle_step W p d))) \<subseteq> {d}"
    by (rule processCalls_step_subset)
  moreover have "snd ` set (processCalls (fst (lifecycle W (snd (lifecycle_step W p d)) ds))) \<subseteq> set ds"
    by (rule Cons.IH)
  ultimately show ?case
    by (auto simp: lifecycle_Cons_events processCalls_append simp del: lifecycle.simps)
qed

subsection \<open>Operations inside a height\<close>

lemma dispatch_modules_eq: "snd (dispatch data mps) = map (dispatch_module data) mps"
  by (simp add: dispatch_registry dispatch_module_def)

text \<open>
  Claim C6. When the height of an operation is 0 or equals the watermark, the step leaves
  the watermark as it is, calls no \<open>FlushCache\<close> and sends nothing: its events are those of
  the dispatch alone. \<open>Process\<close> is called for exactly the modules of the registry that own
  the key, in registry order, and only those modules change.
\<close>

theorem lifecycle_step_idle:
  assumes "BlockHeight d = 0 \<or> BlockHeight d = lastHeight p"
  shows "lastHeight (snd (lifecycle_step W p d)) = lastHeight p
       \<and> fst (lifecycle_step W p d) = concat (map (dispatch_events d) (moduleProcessors p))
       \<and> flushCalls (fst (lifecycle_step W p d)) = []
       \<and> sends (fst (lifecycle_step W p d)) = []
       \<and> processCalls (fst (lifecycle_step W p d)) =
           map (\<lambda>mp. (ModuleName mp, d))
             (filter (\<lambda>mp. OwnsKey mp (Key d)) (moduleProcessors p))
       \<and> moduleProcessors (snd (lifecycle_step W p d)) =
           map (dispatch_module d) (moduleProcessors p)"
proof -
  have f: "flush W p d = ([], p)"
    using assms by (rule flush_idle)
  have s: "lifecycle_step W p d =
             (fst (dispatch d (moduleProcessors p)),
              p\<lparr>moduleProcessors := snd (dispatch d (moduleProcessors p))\<rparr>)"
    by (simp add: lifecycle_step_def f case_prod_unfold)
  show ?thesis
    by (simp add: s flushCalls_dispatch sends_dispatch processCalls_dispatch owners_def
        dispatch_events_eq [symmetric] dispatch_modules_eq)
qed

theorem lifecycle_step_idle_witness:
  "(BlockHeight (authOp 7) = 0 \<or>
      BlockHeight (authOp 7) = lastHeight (exampleProcessor\<lparr>lastHeight := 7\<rparr>))
   \<and> lastHeight (snd (lifecycle_step WithChainName (exampleProcessor\<lparr>lastHeight := 7\<rparr>) (authOp 7))) = 7
   \<and> fst (lifecycle_step WithChainName (exampleProcessor\<lparr>lastHeight := 7\<rparr>) (authOp 7)) =
       [ProcessCall ''auth'' (authOp 7)]
   \<and> fst (lifecycle_step WithChainName (exampleProcessor\<lparr>lastHeight := 7\<rparr>) (exampleOp 0)) =
       [ProcessCall ''auth'' (exampleOp 0), ProcessCall ''bank'' (exampleOp 0)]"
  using lifecycle_step_idle [of "authOp 7" "exampleProcessor\<lparr>lastHeight := 7\<rparr>" WithChainName]
    lifecycle_step_idle [of "exampleOp 0" "exampleProcessor\<lparr>lastHeight := 7\<rparr>" WithChainName]
  by (simp add: example_defs dispatch_events_def)

subsection \<open>One batch for each height boundary\<close>

lemma sends_flush_transition:
  "BlockHeight d \<noteq> lastHeight p \<Longrightarrow> BlockHeight d \<noteq> 0 \<Longrightarrow>
   sends (fst (flush W p d)) =
     [map (stamp W (chainName p)) (filter (\<lambda>e. Data e \<noteq> None) (flushed (moduleProcessors p)))]"
  by (simp add: flush_transition sends_append sends_flush_events)

lemma sends_step:
  "sends (fst (lifecycle_step W p d)) = sends (fst (flush W p d))"
  by (simp add: lifecycle_step_events sends_append sends_dispatch)

lemma lastHeight_step:
  "lastHeight (snd (lifecycle_step W p d)) =
     (if BlockHeight d \<noteq> lastHeight p \<and> BlockHeight d \<noteq> 0 then BlockHeight d else lastHeight p)"
  by (simp add: lifecycle_step_def flush_def case_prod_unfold)

lemma length_sends_step:
  "length (sends (fst (lifecycle_step W p d))) =
     (if BlockHeight d \<noteq> lastHeight p \<and> BlockHeight d \<noteq> 0 then 1 else 0)"
proof (cases "BlockHeight d \<noteq> lastHeight p \<and> BlockHeight d \<noteq> 0")
  case True
  then show ?thesis
    by (simp add: sends_step sends_flush_transition)
next
  case False
  then have "flush W p d = ([], p)"
    by (auto simp: flush_def)
  with False show ?thesis
    by (simp add: sends_step)
qed

lemma length_sends_lifecycle:
  "length (sends (fst (lifecycle W p ops))) = transitions (lastHeight p) ops"
proof (induction ops arbitrary: p)
  case Nil
  then show ?case by simp
next
  case (Cons d ops)
  show ?case
    by (simp add: lifecycle_Cons_events sends_append length_sends_step Cons.IH lastHeight_step
        del: lifecycle.simps)
qed

text \<open>
  Claim C10. A step whose operation has a nonzero height different from the watermark
  sends exactly one aggregate batch, and that batch is the empty list when the modules
  returned no batches, or only batches whose \<open>Data\<close> is nil. Over a whole run there are as
  many sends as height boundaries.
\<close>

theorem one_send_per_transition:
  "(BlockHeight d \<noteq> lastHeight p \<and> BlockHeight d \<noteq> 0 \<longrightarrow>
      sends (fst (lifecycle_step W p d)) =
        [map (stamp W (chainName p))
           (filter (\<lambda>e. Data e \<noteq> None) (flushed (moduleProcessors p)))]
      \<and> (list_all (\<lambda>e. Data e = None) (flushed (moduleProcessors p)) \<longrightarrow>
           sends (fst (lifecycle_step W p d)) = [[]]))
   \<and> length (sends (fst (lifecycle W p ops))) = transitions (lastHeight p) ops"
proof -
  have "filter (\<lambda>e. Data e \<noteq> None) (flushed (moduleProcessors p)) = []"
    if "list_all (\<lambda>e. Data e = None) (flushed (moduleProcessors p))"
    using that by (simp add: list_all_iff filter_empty_conv)
  then show ?thesis
    by (simp add: sends_step sends_flush_transition length_sends_lifecycle)
qed

theorem one_send_per_transition_witness:
  "BlockHeight (authOp 1) \<noteq> lastHeight (exampleProcessor\<lparr>moduleProcessors := [exampleAuth, exampleIbc]\<rparr>)
   \<and> BlockHeight (authOp 1) \<noteq> 0
   \<and> flushed (moduleProcessors (exampleProcessor\<lparr>moduleProcessors := [exampleAuth, exampleIbc]\<rparr>)) =
       [\<lparr>DatabaseExec = ''upsert'', Data = None\<rparr>]
   \<and> list_all (\<lambda>e. Data e = None)
        (flushed (moduleProcessors (exampleProcessor\<lparr>moduleProcessors := [exampleAuth, exampleIbc]\<rparr>)))
   \<and> sends (fst (lifecycle_step WithChainName
        (exampleProcessor\<lparr>moduleProcessors := [exampleAuth, exampleIbc]\<rparr>) (authOp 1))) = [[]]
   \<and> length (sends (fst (lifecycle WithChainName
        (exampleProcessor\<lparr>moduleProcessors := [exampleAuth, exampleIbc]\<rparr>)
        [authOp 1, exampleOp 1, authOp 0, authOp 2]))) = 2"
  using one_send_per_transition [of "authOp 1"
      "exampleProcessor\<lparr>moduleProcessors := [exampleAuth, exampleIbc]\<rparr>" WithChainName
      "[authOp 1, exampleOp 1, authOp 0, authOp 2]"]
  by (simp add: example_defs exampleIbc_def flushed_def)

subsection \<open>Errors of Process\<close>

lemma owners_map_cache:
  "(\<And>mp. ModuleName (f mp) = ModuleName mp \<and> OwnsKey (f mp) = OwnsKey mp) \<Longrightarrow>
   owners (map f mps) d = owners mps d"
  by (induction mps) (simp_all add: owners_def)

lemma owners_flush:
  "owners (moduleProcessors (snd (flush W p d))) d' = owners (moduleProcessors p) d'"
proof (cases "BlockHeight d \<noteq> lastHeight p \<and> BlockHeight d \<noteq> 0")
  case True
  then show ?thesis
    by (simp add: flush_transition owners_map_cache)
next
  case False
  then have "flush W p d = ([], p)"
    by (auto simp: flush_def)
  then show ?thesis by simp
qed

lemma moduleProcessors_step:
  "moduleProcessors (snd (lifecycle_step W p d)) =
     map (dispatch_module d) (moduleProcessors (snd (flush W p d)))"
  by (simp add: lifecycle_step_def case_prod_unfold dispatch_modules_eq)

lemma owners_step:
  "owners (moduleProcessors (snd (lifecycle_step W p d))) d' = owners (moduleProcessors p) d'"
  by (simp add: moduleProcessors_step owners_map_cache dispatch_module_def owners_flush)

lemma processCalls_step:
  "processCalls (fst (lifecycle_step W p d)) = owners (moduleProcessors p) d"
proof -
  have "processCalls (fst (flush W p d)) = []"
  proof (cases "BlockHeight d \<noteq> lastHeight p \<and> BlockHeight d \<noteq> 0")
    case True
    then show ?thesis
      by (simp add: flush_transition processCalls_append processCalls_flush_events)
  next
    case False
    then have "flush W p d = ([], p)"
      by (auto simp: flush_def)
    then show ?thesis by simp
  qed
  then show ?thesis
    by (simp add: lifecycle_step_events processCalls_append processCalls_dispatch owners_flush)
qed

lemma owners_lifecycle:
  "owners (moduleProcessors (snd (lifecycle W p ops))) d' = owners (moduleProcessors p) d'"
  by (induction ops arbitrary: p) (simp_all add: case_prod_unfold owners_step)

lemma processCalls_lifecycle:
  "processCalls (fst (lifecycle W p ops)) = concat (map (owners (moduleProcessors p)) ops)"
proof (induction ops arbitrary: p)
  case Nil
  then show ?case by simp
next
  case (Cons d ops)
  have "owners (moduleProcessors (snd (lifecycle_step W p d))) = owners (moduleProcessors p)"
    by (rule ext) (simp add: owners_step)
  then show ?case
    by (simp add: lifecycle_Cons_events processCalls_append processCalls_step Cons.IH
        del: lifecycle.simps)
qed

text \<open>
  Claim C8. The events of a dispatch are, module by module in registry order, the call of
  \<open>Process\<close> of each owner, followed by the log line with the error, the operation and the
  module name when the call failed. Whether calls fail or not, every owner is called for
  the operation, and over a run every operation is dispatched to all its owners: the calls
  of \<open>Process\<close> do not depend on the errors.
\<close>

theorem process_error_logged_and_dispatch_continues:
  "fst (dispatch d mps) = concat (map (dispatch_events d) mps)
   \<and> (OwnsKey mp (Key d) \<and> fst (Process mp d (cache mp)) = Some e \<longrightarrow>
        dispatch_events d mp = [ProcessCall (ModuleName mp) d, Errorw e d (ModuleName mp)])
   \<and> processCalls (fst (dispatch d mps)) =
        map (\<lambda>mp. (ModuleName mp, d)) (filter (\<lambda>mp. OwnsKey mp (Key d)) mps)
   \<and> processCalls (fst (lifecycle W p ops)) =
        concat (map (\<lambda>d. map (\<lambda>mp. (ModuleName mp, d))
                      (filter (\<lambda>mp. OwnsKey mp (Key d)) (moduleProcessors p))) ops)"
proof -
  have "owners (moduleProcessors p) =
        (\<lambda>d. map (\<lambda>mp. (ModuleName mp, d)) (filter (\<lambda>mp. OwnsKey mp (Key d)) (moduleProcessors p)))"
    by (rule ext) (simp add: owners_def)
  then have "processCalls (fst (lifecycle W p ops)) =
        concat (map (\<lambda>d. map (\<lambda>mp. (ModuleName mp, d))
                      (filter (\<lambda>mp. OwnsKey mp (Key d)) (moduleProcessors p))) ops)"
    by (simp add: processCalls_lifecycle)
  moreover have "processCalls (fst (dispatch d mps)) =
        map (\<lambda>mp. (ModuleName mp, d)) (filter (\<lambda>mp. OwnsKey mp (Key d)) mps)"
    by (simp add: processCalls_dispatch owners_def)
  ultimately show ?thesis
    by (simp add: dispatch_events_eq dispatch_events_def)
qed

theorem process_error_logged_and_dispatch_continues_witness:
  "OwnsKey exampleAuth (Key (failingOp 0))
   \<and> fst (Process exampleAuth (failingOp 0) (cache exampleAuth)) = Some (Errorf ''empty value'')
   \<and> fst (lifecycle WithChainName exampleProcessor [failingOp 0, exampleOp 0]) =
       [ProcessCall ''auth'' (failingOp 0),
        Errorw (Errorf ''empty value'') (failingOp 0) ''auth'',
        ProcessCall ''bank'' (failingOp 0),
        Errorw (Errorf ''empty value'') (failingOp 0) ''bank'',
        ProcessCall ''auth'' (exampleOp 0),
        ProcessCall ''bank'' (exampleOp 0)]
   \<and> processCalls (fst (lifecycle WithChainName exampleProcessor [failingOp 0, exampleOp 0])) =
       [(''auth'', failingOp 0), (''bank'', failingOp 0),
        (''auth'', exampleOp 0), (''bank'', exampleOp 0)]"
  using process_error_logged_and_dispatch_continues
    [of "failingOp 0" "moduleProcessors exampleProcessor" exampleAuth "Errorf ''empty value''"
      WithChainName exampleProcessor "[failingOp 0, exampleOp 0]"]
  by (simp add: lifecycle_step_def flush_def example_defs dispatch_events_def)

subsection \<open>The aggregate batch\<close>

text \<open>
  Claim C4 as it is stated does not hold: a batch whose \<open>Data\<close> is an allocated slice with
  no rows passes the test of line 146 and is published.
\<close>

theorem empty_batch_published_counterexample:
  "fst (FlushCache exampleDelegations (cache exampleDelegations)) =
     [\<lparr>DatabaseExec = ''insert'', Data = Some []\<rparr>, \<lparr>DatabaseExec = ''delete'', Data = None\<rparr>]
   \<and> sends (fst (lifecycle_step WithChainName
        (exampleProcessor\<lparr>moduleProcessors := [exampleDelegations]\<rparr>) (authOp 1))) =
     [[\<lparr>DatabaseExec = ''insert'', Data = Some []\<rparr>]]"
  by (simp add: lifecycle_step_def flush_def example_defs exampleDelegations_def stamp_def)

text \<open>
  Claim C4, amended. A batch returned by \<open>FlushCache\<close> is appended to the aggregate if and
  only if its \<open>Data\<close> is not nil: the aggregate is the list of the returned batches with
  non-nil \<open>Data\<close>, stamped, in the order they were returned. No batch of the aggregate has
  nil \<open>Data\<close>, and the aggregate is what the step sends.
\<close>

theorem aggregate_is_non_nil_batches:
  "snd (snd (flushModules W chain mps [])) =
     map (stamp W chain) (filter (\<lambda>e. Data e \<noteq> None) (flushed mps))
   \<and> (\<forall>e \<in> set (snd (snd (flushModules W chain mps []))). Data e \<noteq> None)
   \<and> (BlockHeight d \<noteq> lastHeight p \<and> BlockHeight d \<noteq> 0 \<longrightarrow>
        Send (map (stamp W (chainName p))
               (filter (\<lambda>e. Data e \<noteq> None) (flushed (moduleProcessors p))))
          \<in> set (fst (lifecycle_step W p d)))"
proof -
  have "Data (stamp W chain e) \<noteq> None" if "Data e \<noteq> None" for e :: "'a WritebackOp"
    using that by (simp add: stamp_def)
  then show ?thesis
    by (auto simp: flushModules_aggregate lifecycle_step_events flush_transition)
qed

theorem aggregate_is_non_nil_batches_witness:
  "BlockHeight (authOp 1) \<noteq> lastHeight (exampleProcessor\<lparr>moduleProcessors := [exampleDelegations]\<rparr>)
   \<and> BlockHeight (authOp 1) \<noteq> 0
   \<and> snd (snd (flushModules WithChainName ''cosmoshub''
        [exampleDelegations\<lparr>cache := [\<lparr>cn = ''''\<rparr>]\<rparr>, exampleDelegations] [])) =
      [\<lparr>DatabaseExec = ''insert'', Data = Some [\<lparr>cn = ''cosmoshub''\<rparr>]\<rparr>,
       \<lparr>DatabaseExec = ''insert'', Data = Some []\<rparr>]
   \<and> Send [\<lparr>DatabaseExec = ''insert'', Data = Some []\<rparr>]
        \<in> set (fst (lifecycle_step WithChainName
             (exampleProcessor\<lparr>moduleProcessors := [exampleDelegations]\<rparr>) (authOp 1)))"
  using aggregate_is_non_nil_batches [of WithChainName "''cosmoshub''"
      "[exampleDelegations\<lparr>cache := [\<lparr>cn = ''''\<rparr>]\<rparr>, exampleDelegations]" "authOp 1"
      "exampleProcessor\<lparr>moduleProcessors := [exampleDelegations]\<rparr>"]
  by (simp add: example_defs exampleDelegations_def stamp_def flushed_def)







subsection \<open>The watermark\<close>

text \<open>
  Claim C3 as it is stated does not hold: the test of line 140 is a disequality, so an
  operation of height 3 that arrives at watermark 5 lowers the watermark to 3.
\<close>

theorem watermark_decreases_counterexample:
  "lastHeight (snd (lifecycle WithChainName exampleProcessor [authOp 5])) = 5
   \<and> lastHeight (snd (lifecycle WithChainName exampleProcessor [authOp 5, authOp 3])) = 3
   \<and> lastHeight (snd (lifecycle WithChainName exampleProcessor [authOp 5, authOp 3]))
       < lastHeight (snd (lifecycle WithChainName exampleProcessor [authOp 5]))"
  by (simp add: lifecycle_step_def flush_def example_defs case_prod_unfold)

lemma lastHeight_lifecycle:
  "lastHeight (snd (lifecycle W p ops)) =
     last (lastHeight p # filter (\<lambda>h. h \<noteq> 0) (map BlockHeight ops))"
proof (induction ops arbitrary: p)
  case Nil
  then show ?case by simp
next
  case (Cons d ops)
  have "lastHeight (snd (lifecycle W p (d # ops))) =
        lastHeight (snd (lifecycle W (snd (lifecycle_step W p d)) ops))"
    by (simp add: case_prod_unfold)
  then show ?case
    by (simp add: Cons.IH lastHeight_step)
qed

text \<open>
  Claim C3, amended. The watermark changes only at an operation whose height is not 0 and
  differs from it, and then becomes that height, greater or smaller. After a run it is the
  last nonzero height received, or the initial watermark when there was none. It does not
  decrease at an operation when the nonzero heights received up to it, the initial
  watermark first, are in non-decreasing order.
\<close>

theorem watermark_follows_heights:
  "lastHeight (snd (lifecycle_step W p d)) =
     (if BlockHeight d \<noteq> lastHeight p \<and> BlockHeight d \<noteq> 0
      then BlockHeight d else lastHeight p)
   \<and> lastHeight (snd (lifecycle W p ops)) =
       last (lastHeight p # filter (\<lambda>h. h \<noteq> 0) (map BlockHeight ops))
   \<and> (sorted (lastHeight p # filter (\<lambda>h. h \<noteq> 0) (map BlockHeight (ds @ [d]))) \<longrightarrow>
        lastHeight (snd (lifecycle W p ds)) \<le> lastHeight (snd (lifecycle W p (ds @ [d]))))"
proof -
  have "lastHeight (snd (lifecycle W p ds)) \<le> lastHeight (snd (lifecycle W p (ds @ [d])))"
    if s: "sorted (lastHeight p # filter (\<lambda>h. h \<noteq> 0) (map BlockHeight (ds @ [d])))"
  proof (cases "BlockHeight d = 0")
    case True
    then show ?thesis
      by (simp add: lastHeight_lifecycle)
  next
    case False
    let ?hs = "lastHeight p # filter (\<lambda>h. h \<noteq> 0) (map BlockHeight ds)"
    from s False have "sorted (?hs @ [BlockHeight d])"
      by simp
    then have "\<forall>x \<in> set ?hs. x \<le> BlockHeight d"
      by (simp only: sorted_append) simp
    moreover have "last ?hs \<in> set ?hs"
      by (rule last_in_set) simp
    ultimately have "last ?hs \<le> BlockHeight d"
      by blast
    with False show ?thesis
      by (simp add: lastHeight_lifecycle)
  qed
  then show ?thesis
    by (simp add: lastHeight_step lastHeight_lifecycle)
qed

theorem watermark_follows_heights_witness:
  "sorted (lastHeight exampleProcessor #
      filter (\<lambda>h. h \<noteq> 0) (map BlockHeight ([authOp 1, exampleOp 0, exampleOp 1] @ [authOp 4])))
   \<and> lastHeight (snd (lifecycle WithChainName exampleProcessor [authOp 1, exampleOp 0, exampleOp 1])) = 1
   \<and> lastHeight (snd (lifecycle WithChainName exampleProcessor
        ([authOp 1, exampleOp 0, exampleOp 1] @ [authOp 4]))) = 4"
  using watermark_follows_heights [of WithChainName exampleProcessor "authOp 4"
      "[authOp 1, exampleOp 0, exampleOp 1] @ [authOp 4]" "[authOp 1, exampleOp 0, exampleOp 1]"]
  by (simp add: example_defs lifecycle_step_def flush_def)

subsection \<open>The flush at a height boundary\<close>

text \<open>
  Claim C1 as it is stated does not hold in its second sentence: the test of line 140 is a
  disequality, so heights may come back. On the heights 2, 1, 2 the third operation opens
  height 2 at watermark 1, and the first operation, of height 2 as well, has been
  processed before the batch of height 1 is sent.
\<close>

theorem new_height_processed_before_send_counterexample:
  "BlockHeight (exampleOp 2) \<noteq>
     lastHeight (snd (lifecycle WithChainName exampleProcessor [authOp 2, authOp 1]))
   \<and> BlockHeight (exampleOp 2) \<noteq> 0
   \<and> BlockHeight (authOp 2) = BlockHeight (exampleOp 2)
   \<and> fst (lifecycle WithChainName exampleProcessor [authOp 2, authOp 1, exampleOp 2]) =
       [FlushCacheCall ''auth'', FlushCacheCall ''bank'', Send [], Infow 0,
        ProcessCall ''auth'' (authOp 2),
        FlushCacheCall ''auth'', FlushCacheCall ''bank'',
        Send [\<lparr>DatabaseExec = ''upsert'', Data = Some [\<lparr>cn = ''cosmoshub''\<rparr>]\<rparr>],
        Infow 2,
        ProcessCall ''auth'' (authOp 1),
        FlushCacheCall ''auth'', FlushCacheCall ''bank'',
        Send [\<lparr>DatabaseExec = ''upsert'', Data = Some [\<lparr>cn = ''cosmoshub''\<rparr>]\<rparr>],
        Infow 1,
        ProcessCall ''auth'' (exampleOp 2), ProcessCall ''bank'' (exampleOp 2)]
   \<and> (''auth'', authOp 2) \<in> set (processCalls
        [FlushCacheCall ''auth'', FlushCacheCall ''bank'', Send [], Infow 0,
         ProcessCall ''auth'' (authOp 2),
         FlushCacheCall ''auth'', FlushCacheCall ''bank'',
         Send [\<lparr>DatabaseExec = ''upsert'', Data = Some [\<lparr>cn = ''cosmoshub''\<rparr>]\<rparr>],
         Infow 2,
         ProcessCall ''auth'' (authOp 1),
         FlushCacheCall ''auth'', FlushCacheCall ''bank''])"
  by (simp add: lifecycle_step_def flush_def example_defs stamp_def)

lemma sorted_le_last:
  fixes xs :: "'a::linorder list"
  shows "sorted xs \<Longrightarrow> x \<in> set xs \<Longrightarrow> x \<le> last xs"
  by (induction xs) auto

lemma heights_before_new_height:
  assumes s: "sorted (lastHeight p # filter (\<lambda>h. h \<noteq> 0) (map BlockHeight (ds @ [d])))"
    and h1: "BlockHeight d \<noteq> lastHeight (snd (lifecycle W p ds))"
    and h2: "BlockHeight d \<noteq> 0"
    and d': "d' \<in> set ds"
  shows "BlockHeight d' \<noteq> BlockHeight d"
proof (cases "BlockHeight d' = 0")
  case True
  with h2 show ?thesis by simp
next
  case False
  let ?hs = "lastHeight p # filter (\<lambda>h. h \<noteq> 0) (map BlockHeight ds)"
  from s h2 have sd: "sorted (?hs @ [BlockHeight d])"
    by simp
  then have le: "\<forall>x \<in> set ?hs. x \<le> BlockHeight d" and sh: "sorted ?hs"
    by (simp_all only: sorted_append) simp_all
  have "last ?hs \<in> set ?hs"
    by (rule last_in_set) simp
  with le have "last ?hs \<le> BlockHeight d"
    by blast
  moreover from h1 have "BlockHeight d \<noteq> last ?hs"
    by (simp add: lastHeight_lifecycle)
  ultimately have lt: "last ?hs < BlockHeight d"
    by simp
  from d' False have m: "BlockHeight d' \<in> set ?hs"
    by simp
  from sh m have "BlockHeight d' \<le> last ?hs"
    by (rule sorted_le_last)
  with lt show ?thesis
    by simp
qed

text \<open>
  Claim C1, amended. Let an operation \<open>d\<close> arrive after the operations \<open>ds\<close>, with a height
  that is not 0 and differs from the watermark the processor then has. The events of the
  whole run are then, in order: the events of \<open>ds\<close>; one call of \<open>FlushCache\<close> for every
  module of the registry, in registry order; the send of the aggregate batch on the
  writeback queue and the log line; the dispatch of \<open>d\<close> to the modules that own its key;
  the events of the operations after \<open>d\<close>. Every call of \<open>Process\<close> before the send is for
  one of the earlier operations \<open>ds\<close>: the operation that opened the new height, and all
  that follow it, reach a module only after the batch of the previous height has been
  sent. When the nonzero heights received up to \<open>d\<close>, the initial watermark first, are in
  non-decreasing order, no operation of the height of \<open>d\<close> is processed before that send.
\<close>

theorem lifecycle_flush_precedes_dispatch:
  assumes pk: "pk = snd (lifecycle W p ds)"
    and h1: "BlockHeight d \<noteq> lastHeight pk"
    and h2: "BlockHeight d \<noteq> 0"
  shows "fst (lifecycle W p (ds @ d # ds')) =
           fst (lifecycle W p ds) @
           map (\<lambda>mp. FlushCacheCall (ModuleName mp)) (moduleProcessors pk) @
           [Send (map (stamp W (chainName pk))
                   (filter (\<lambda>e. Data e \<noteq> None) (flushed (moduleProcessors pk)))),
            Infow (lastHeight pk)] @
           fst (dispatch d (moduleProcessors (snd (flush W pk d)))) @
           fst (lifecycle W (snd (lifecycle_step W pk d)) ds')
         \<and> snd ` set (processCalls (fst (lifecycle W p ds) @
                 map (\<lambda>mp. FlushCacheCall (ModuleName mp)) (moduleProcessors pk))) \<subseteq> set ds
         \<and> processCalls (fst (dispatch d (moduleProcessors (snd (flush W pk d))))) =
             owners (moduleProcessors pk) d
         \<and> (sorted (lastHeight p # filter (\<lambda>h. h \<noteq> 0) (map BlockHeight (ds @ [d]))) \<longrightarrow>
              BlockHeight d \<notin> (\<lambda>c. BlockHeight (snd c)) `
                set (processCalls (fst (lifecycle W p ds) @
                  map (\<lambda>mp. FlushCacheCall (ModuleName mp)) (moduleProcessors pk))))"
proof -
  have a: "fst (lifecycle W p (ds @ d # ds')) =
             fst (lifecycle W p ds) @ fst (lifecycle_step W pk d) @
             fst (lifecycle W (snd (lifecycle_step W pk d)) ds')"
    by (simp add: lifecycle_append [of W p ds] pk lifecycle_Cons_events del: lifecycle.simps)
  have b: "fst (flush W pk d) =
             map (\<lambda>mp. FlushCacheCall (ModuleName mp)) (moduleProcessors pk) @
             [Send (map (stamp W (chainName pk))
                   (filter (\<lambda>e. Data e \<noteq> None) (flushed (moduleProcessors pk)))),
              Infow (lastHeight pk)]"
    by (simp add: flush_transition [OF h1 h2])
  have c: "snd ` set (processCalls (fst (lifecycle W p ds))) \<subseteq> set ds"
    by (rule processCalls_lifecycle_subset)
  have d: "owners (moduleProcessors (snd (flush W pk d))) d = owners (moduleProcessors pk) d"
    by (simp add: flush_transition [OF h1 h2] owners_def filter_map comp_def)
  have e: "BlockHeight d \<notin> (\<lambda>c. BlockHeight (snd c)) ` set (processCalls (fst (lifecycle W p ds)))"
    if s: "sorted (lastHeight p # filter (\<lambda>h. h \<noteq> 0) (map BlockHeight (ds @ [d])))"
  proof
    assume "BlockHeight d \<in> (\<lambda>c. BlockHeight (snd c)) ` set (processCalls (fst (lifecycle W p ds)))"
    then obtain c' where c': "c' \<in> set (processCalls (fst (lifecycle W p ds)))"
      and eq: "BlockHeight d = BlockHeight (snd c')"
      by blast
    from c' c have "snd c' \<in> set ds"
      by blast
    from heights_before_new_height [OF s h1 [unfolded pk] h2 this] eq show False
      by simp
  qed
  have first: "fst (lifecycle W p (ds @ d # ds')) =
           fst (lifecycle W p ds) @
           map (\<lambda>mp. FlushCacheCall (ModuleName mp)) (moduleProcessors pk) @
           [Send (map (stamp W (chainName pk))
                   (filter (\<lambda>e. Data e \<noteq> None) (flushed (moduleProcessors pk)))),
            Infow (lastHeight pk)] @
           fst (dispatch d (moduleProcessors (snd (flush W pk d)))) @
           fst (lifecycle W (snd (lifecycle_step W pk d)) ds')"
    by (simp add: a lifecycle_step_events b)
  have second: "snd ` set (processCalls (fst (lifecycle W p ds) @
                 map (\<lambda>mp. FlushCacheCall (ModuleName mp)) (moduleProcessors pk))) \<subseteq> set ds"
    using c by (simp add: processCalls_append processCalls_flush_events)
  have third: "processCalls (fst (dispatch d (moduleProcessors (snd (flush W pk d))))) =
             owners (moduleProcessors pk) d"
    by (simp add: processCalls_dispatch d)
  have fourth: "sorted (lastHeight p # filter (\<lambda>h. h \<noteq> 0) (map BlockHeight (ds @ [d]))) \<longrightarrow>
              BlockHeight d \<notin> (\<lambda>c. BlockHeight (snd c)) `
                set (processCalls (fst (lifecycle W p ds) @
                  map (\<lambda>mp. FlushCacheCall (ModuleName mp)) (moduleProcessors pk)))"
    using e by (simp add: processCalls_append processCalls_flush_events)
  from first second third fourth show ?thesis
    by (intro conjI)
qed

theorem lifecycle_flush_precedes_dispatch_witness:
  "BlockHeight (exampleOp 2) \<noteq>
     lastHeight (snd (lifecycle WithChainName exampleProcessor [authOp 1])) \<and>
   BlockHeight (exampleOp 2) \<noteq> 0 \<and>
   sorted (lastHeight exampleProcessor #
     filter (\<lambda>h. h \<noteq> 0) (map BlockHeight ([authOp 1] @ [exampleOp 2]))) \<and>
   fst (lifecycle WithChainName exampleProcessor ([authOp 1] @ exampleOp 2 # [])) =
     [FlushCacheCall ''auth'', FlushCacheCall ''bank'', Send [], Infow 0,
      ProcessCall ''auth'' (authOp 1),
      FlushCacheCall ''auth'', FlushCacheCall ''bank'',
      Send [\<lparr>DatabaseExec = ''upsert'', Data = Some [\<lparr>cn = ''cosmoshub''\<rparr>]\<rparr>],
      Infow 1,
      ProcessCall ''auth'' (exampleOp 2), ProcessCall ''bank'' (exampleOp 2)] \<and>
   BlockHeight (exampleOp 2) \<notin> (\<lambda>c. BlockHeight (snd c)) `
     set (processCalls (fst (lifecycle WithChainName exampleProcessor [authOp 1]) @
       map (\<lambda>mp. FlushCacheCall (ModuleName mp))
         (moduleProcessors (snd (lifecycle WithChainName exampleProcessor [authOp 1])))))"
  using lifecycle_flush_precedes_dispatch
    [of "snd (lifecycle WithChainName exampleProcessor [authOp 1])"
      WithChainName exampleProcessor "[authOp 1]" "exampleOp 2" "[]"]
  by (simp add: lifecycle_step_def flush_def example_defs stamp_def flushed_def)

subsection \<open>Construction\<close>

lemma processorByName_name: "processorByName ps name = Inr m \<Longrightarrow> ModuleName m = name"
  by (auto simp: processorByName_def split: if_splits)

lemma processorByName_error:
  "isl (processorByName ps name) \<Longrightarrow>
   processorByName ps name = Inl (Errorf (''unkonwn Processor '' @ name))"
  by (auto simp: processorByName_def split: if_splits)

lemma New_loop_all_known:
  "list_all (\<lambda>n. \<not> isl (processorByName ps n)) names \<Longrightarrow>
   New_loop ps names mp ts =
     Inr (mp @ map (\<lambda>n. projr (processorByName ps n)) names,
          ts @ map (\<lambda>n. TableSchema (projr (processorByName ps n))) names)"
proof (induction names arbitrary: mp ts)
  case Nil
  then show ?case by simp
next
  case (Cons n names)
  then obtain m where m: "processorByName ps n = Inr m"
    by (cases "processorByName ps n") auto
  with Cons show ?case by simp
qed

lemma New_loop_unknown:
  "\<not> list_all (\<lambda>n. \<not> isl (processorByName ps n)) names \<Longrightarrow>
   New_loop ps names mp ts =
     Inl (Errorf (''unkonwn Processor '' @ hd (filter (\<lambda>n. isl (processorByName ps n)) names)))"
proof (induction names arbitrary: mp ts)
  case Nil
  then show ?case by simp
next
  case (Cons n names)
  show ?case
  proof (cases "processorByName ps n")
    case (Inl e)
    then have "isl (processorByName ps n)" by simp
    then show ?thesis
      using processorByName_error [of ps n] by simp
  next
    case (Inr m)
    with Cons show ?thesis by simp
  qed
qed

lemma map_ModuleName_known:
  "list_all (\<lambda>n. \<not> isl (processorByName ps n)) names \<Longrightarrow>
   map (\<lambda>n. ModuleName (projr (processorByName ps n))) names = names"
proof (induction names)
  case Nil
  then show ?case by simp
next
  case (Cons n names)
  then obtain m where m: "processorByName ps n = Inr m"
    by (cases "processorByName ps n") auto
  with Cons processorByName_name [OF m] show ?case by simp
qed

lemma processorByName_examples:
  "processorByName exampleProcessors ''bank'' = Inr exampleBank"
  "processorByName exampleProcessors ''delegations'' = Inr exampleDelegations"
  "processorByName exampleProcessors ''auth'' = Inr exampleAuth"
  "processorByName exampleProcessors ''staking'' = Inl (Errorf ''unkonwn Processor staking'')"
  by (simp_all add: processorByName_def exampleProcessors_def example_defs)

text \<open>
  Claim C9. The list of enabled names is the configured one, or \<open>bank\<close>, \<open>delegations\<close>,
  \<open>auth\<close> when the configured list is nil. When every enabled name has a processor, \<open>New\<close>
  returns a processor whose registry holds the processor of each name, in the order of
  the list, and whose migrations are the table schemas of the registry, one for each
  module and in the same order. When some name has no processor, \<open>New\<close> returns the error
  for the first such name and no processor: the loop is never started.
\<close>

theorem New_registry_and_migrations:
  "(ProcessorsEnabled (Gaia cfg) = None \<longrightarrow> enabled cfg = [''bank'', ''delegations'', ''auth''])
   \<and> (ProcessorsEnabled (Gaia cfg) = Some names \<longrightarrow> enabled cfg = names)
   \<and> (list_all (\<lambda>n. \<not> isl (processorByName ps n)) (enabled cfg) \<longrightarrow>
        (\<exists>p. New ps cfg = Inr p
           \<and> moduleProcessors p = map (\<lambda>n. projr (processorByName ps n)) (enabled cfg)
           \<and> map ModuleName (moduleProcessors p) = enabled cfg
           \<and> DatabaseMigrations p = map TableSchema (moduleProcessors p)
           \<and> length (DatabaseMigrations p) = length (enabled cfg)
           \<and> chainName p = ChainName cfg \<and> lastHeight p = 0))
   \<and> (\<not> list_all (\<lambda>n. \<not> isl (processorByName ps n)) (enabled cfg) \<longrightarrow>
        New ps cfg =
          Inl (Errorf (''unkonwn Processor '' @
                 hd (filter (\<lambda>n. isl (processorByName ps n)) (enabled cfg)))))"
proof -
  have known: "\<exists>p. New ps cfg = Inr p
           \<and> moduleProcessors p = map (\<lambda>n. projr (processorByName ps n)) (enabled cfg)
           \<and> map ModuleName (moduleProcessors p) = enabled cfg
           \<and> DatabaseMigrations p = map TableSchema (moduleProcessors p)
           \<and> length (DatabaseMigrations p) = length (enabled cfg)
           \<and> chainName p = ChainName cfg \<and> lastHeight p = 0"
    if a: "list_all (\<lambda>n. \<not> isl (processorByName ps n)) (enabled cfg)"
    using New_loop_all_known [OF a, of "[]" "[]"] map_ModuleName_known [OF a]
    by (simp add: New_def DatabaseMigrations_def comp_def)
  have unknown: "New ps cfg =
          Inl (Errorf (''unkonwn Processor '' @
                 hd (filter (\<lambda>n. isl (processorByName ps n)) (enabled cfg))))"
    if a: "\<not> list_all (\<lambda>n. \<not> isl (processorByName ps n)) (enabled cfg)"
    using New_loop_unknown [OF a, of "[]" "[]"] by (simp add: New_def)
  from known unknown show ?thesis
    by (simp add: enabled_def)
qed

theorem New_registry_and_migrations_witness:
  "ProcessorsEnabled (Gaia \<lparr>Gaia = \<lparr>ProcessorsEnabled = None\<rparr>, ChainName = ''cosmoshub''\<rparr>) = None
   \<and> list_all (\<lambda>n. \<not> isl (processorByName exampleProcessors n))
        (enabled \<lparr>Gaia = \<lparr>ProcessorsEnabled = None\<rparr>, ChainName = ''cosmoshub''\<rparr>)
   \<and> New exampleProcessors \<lparr>Gaia = \<lparr>ProcessorsEnabled = None\<rparr>, ChainName = ''cosmoshub''\<rparr> =
       Inr \<lparr>migrations = [''CREATE TABLE IF NOT EXISTS bank'',
                          ''CREATE TABLE IF NOT EXISTS delegations'',
                          ''CREATE TABLE IF NOT EXISTS auth''],
            lastHeight = 0, chainName = ''cosmoshub'',
            moduleProcessors = [exampleBank, exampleDelegations, exampleAuth]\<rparr>
   \<and> ProcessorsEnabled (Gaia \<lparr>Gaia = \<lparr>ProcessorsEnabled = Some [''auth'', ''staking'', ''bank'']\<rparr>,
        ChainName = ''cosmoshub''\<rparr>) = Some [''auth'', ''staking'', ''bank'']
   \<and> \<not> list_all (\<lambda>n. \<not> isl (processorByName exampleProcessors n))
        (enabled \<lparr>Gaia = \<lparr>ProcessorsEnabled = Some [''auth'', ''staking'', ''bank'']\<rparr>,
           ChainName = ''cosmoshub''\<rparr>)
   \<and> New exampleProcessors
        \<lparr>Gaia = \<lparr>ProcessorsEnabled = Some [''auth'', ''staking'', ''bank'']\<rparr>,
         ChainName = ''cosmoshub''\<rparr> =
       Inl (Errorf ''unkonwn Processor staking'')"
  using New_registry_and_migrations [of "\<lparr>Gaia = \<lparr>ProcessorsEnabled = None\<rparr>, ChainName = ''cosmoshub''\<rparr>"
      "[]" exampleProcessors]
    New_registry_and_migrations
      [of "\<lparr>Gaia = \<lparr>ProcessorsEnabled = Some [''auth'', ''staking'', ''bank'']\<rparr>, ChainName = ''cosmoshub''\<rparr>"
        "[''auth'', ''staking'', ''bank'']" exampleProcessors]
  by (simp add: processorByName_examples New_def enabled_def exampleModule_def exampleBank_def
      exampleDelegations_def exampleAuth_def)

subsection \<open>The batch splitter\<close>

lemma chunks_Nil: "chunks n [] = []"
  by (simp add: chunks.simps)

lemma concat_chunks: "0 < n \<Longrightarrow> concat (chunks n xs) = xs"
proof (induction n xs rule: chunks.induct)
  case (1 n xs)
  show ?case
  proof (cases "xs = []")
    case True
    then show ?thesis by (simp add: chunks.simps)
  next
    case False
    with "1.prems" have "chunks n xs = take n xs # chunks n (drop n xs)"
      by (subst chunks.simps) simp
    moreover from "1.IH" "1.prems" False have "concat (chunks n (drop n xs)) = drop n xs"
      by simp
    ultimately show ?thesis by simp
  qed
qed

lemma length_chunks: "0 < n \<Longrightarrow> length (chunks n xs) = (length xs + n - 1) div n"
proof (induction n xs rule: chunks.induct)
  case (1 n xs)
  show ?case
  proof (cases "xs = []")
    case True
    with "1.prems" show ?thesis by (simp add: chunks.simps)
  next
    case False
    with "1.prems" have c: "chunks n xs = take n xs # chunks n (drop n xs)"
      by (subst chunks.simps) simp
    from "1.IH" "1.prems" False
    have ih: "length (chunks n (drop n xs)) = (length (drop n xs) + n - 1) div n"
      by simp
    show ?thesis
    proof (cases "length xs \<le> n")
      case True
      with False "1.prems" have "(length xs + n - 1) div n = 1"
        by (cases xs) (simp_all add: div_eq_dividend_iff Suc_le_eq div_nat_eqI)
      with True "1.prems" show ?thesis
        by (simp add: c ih chunks_Nil)
    next
      case False
      then have "length xs + n - 1 = (length xs - n + n - 1) + n"
        using "1.prems" by simp
      then have "(length xs + n - 1) div n = Suc ((length xs - n + n - 1) div n)"
        using "1.prems" by (metis div_add_self2 Suc_eq_plus1 less_numeral_extra(3))
      then show ?thesis
        by (simp add: c ih)
    qed
  qed
qed

lemma nth_chunks:
  "0 < n \<Longrightarrow> i < length (chunks n xs) \<Longrightarrow> chunks n xs ! i = take n (drop (i * n) xs)"
proof (induction n xs arbitrary: i rule: chunks.induct)
  case (1 n xs)
  show ?case
  proof (cases "xs = []")
    case True
    with "1.prems" show ?thesis by (simp add: chunks.simps)
  next
    case False
    with "1.prems" have c: "chunks n xs = take n xs # chunks n (drop n xs)"
      by (subst chunks.simps) simp
    show ?thesis
    proof (cases i)
      case 0
      then show ?thesis by (simp add: c)
    next
      case (Suc j)
      with "1.prems" c have "j < length (chunks n (drop n xs))"
        by simp
      with "1.IH" "1.prems" False
      have "chunks n (drop n xs) ! j = take n (drop (j * n) (drop n xs))"
        by simp
      with Suc show ?thesis
        by (simp add: c add.commute)
    qed
  qed
qed

text \<open>
  The three cases of the repository's test \<open>TestWritebackOp_SplitStatements\<close> (rows of four
  fields, four rows): limits 15 and 4 give four batches, limit 40 gives one.
\<close>

lemma SplitStatements_test_cases:
  "SplitStatements 4 15 exampleBatch =
     Inr [exampleBatch\<lparr>Data := Some [\<lparr>cn = ''a''\<rparr>]\<rparr>, exampleBatch\<lparr>Data := Some [\<lparr>cn = ''b''\<rparr>]\<rparr>,
          exampleBatch\<lparr>Data := Some [\<lparr>cn = ''c''\<rparr>]\<rparr>, exampleBatch\<lparr>Data := Some [\<lparr>cn = ''d''\<rparr>]\<rparr>]"
  "SplitStatements 4 4 exampleBatch =
     Inr [exampleBatch\<lparr>Data := Some [\<lparr>cn = ''a''\<rparr>]\<rparr>, exampleBatch\<lparr>Data := Some [\<lparr>cn = ''b''\<rparr>]\<rparr>,
          exampleBatch\<lparr>Data := Some [\<lparr>cn = ''c''\<rparr>]\<rparr>, exampleBatch\<lparr>Data := Some [\<lparr>cn = ''d''\<rparr>]\<rparr>]"
  "SplitStatements 4 40 exampleBatch = Inr [exampleBatch]"
  "SplitStatements 4 12 exampleBatch =
     Inr [exampleBatch\<lparr>Data := Some [\<lparr>cn = ''a''\<rparr>, \<lparr>cn = ''b''\<rparr>, \<lparr>cn = ''c''\<rparr>]\<rparr>,
          exampleBatch\<lparr>Data := Some [\<lparr>cn = ''d''\<rparr>]\<rparr>]"
  "SplitStatements 4 3 exampleBatch = Inl FieldsExceedLimit"
  by (simp_all add: SplitStatements_def rowsOf_def exampleBatch_def chunks.simps)

text \<open>
  Claim C2. Let \<open>f\<close> be the number of bound parameters of a row, at least 1, with
  \<open>f \<le> limit\<close>. When \<open>limit mod f = 0\<close>, \<open>SplitStatements\<close> returns the consecutive groups
  of \<open>limit / f\<close> rows: batch \<open>i\<close> holds the rows from \<open>i * (limit / f)\<close> on, at most
  \<open>limit / f\<close> of them, and there are \<open>ceil (len / (limit / f))\<close> batches. When
  \<open>limit mod f \<noteq> 0\<close>, it returns one batch for each row. In both cases the rows of the
  batches, concatenated, are the rows of the input, so their number and their order are
  kept, and every batch keeps the statement template. When \<open>f > limit\<close> the call panics.
\<close>

theorem SplitStatements_batches:
  "(0 < f \<and> int f \<le> limit \<and> limit mod int f = 0 \<longrightarrow>
      SplitStatements f limit wo =
        Inr (map (\<lambda>rows. wo\<lparr>Data := Some rows\<rparr>) (chunks (nat (limit div int f)) (rowsOf wo)))
      \<and> length (chunks (nat (limit div int f)) (rowsOf wo)) =
          (length (rowsOf wo) + nat (limit div int f) - 1) div nat (limit div int f)
      \<and> (\<forall>i < length (chunks (nat (limit div int f)) (rowsOf wo)).
            chunks (nat (limit div int f)) (rowsOf wo) ! i =
              take (nat (limit div int f)) (drop (i * nat (limit div int f)) (rowsOf wo)))
      \<and> concat (chunks (nat (limit div int f)) (rowsOf wo)) = rowsOf wo)
   \<and> (0 < f \<and> int f \<le> limit \<and> limit mod int f \<noteq> 0 \<longrightarrow>
      SplitStatements f limit wo = Inr (map (\<lambda>row. wo\<lparr>Data := Some [row]\<rparr>) (rowsOf wo)))
   \<and> (0 < f \<and> int f \<le> limit \<longrightarrow>
      (\<exists>out. SplitStatements f limit wo = Inr out
         \<and> concat (map rowsOf out) = rowsOf wo
         \<and> sum_list (map (\<lambda>b. length (rowsOf b)) out) = length (rowsOf wo)
         \<and> list_all (\<lambda>b. DatabaseExec b = DatabaseExec wo) out))
   \<and> (limit < int f \<longrightarrow> SplitStatements f limit wo = Inl FieldsExceedLimit)"
proof -
  let ?k = "nat (limit div int f)"
  have k: "0 < ?k" if "0 < f" and "int f \<le> limit"
  proof -
    from that have "0 < limit div int f"
      by (simp add: pos_imp_zdiv_pos_iff)
    then show ?thesis by simp
  qed
  have rows_chunks: "concat (map rowsOf (map (\<lambda>rows. wo\<lparr>Data := Some rows\<rparr>) (chunks ?k xs))) = xs"
    if "0 < ?k" for xs
  proof -
    have "map rowsOf (map (\<lambda>rows. wo\<lparr>Data := Some rows\<rparr>) (chunks ?k xs)) = chunks ?k xs"
      by (simp add: rowsOf_def comp_def)
    with that show ?thesis
      by (simp add: concat_chunks)
  qed
  have rows_single: "concat (map rowsOf (map (\<lambda>row. wo\<lparr>Data := Some [row]\<rparr>) xs)) = xs" for xs
    by (induction xs) (simp_all add: rowsOf_def)
  have count: "sum_list (map (\<lambda>b. length (rowsOf b)) out) = length (concat (map rowsOf out))"
    for out :: "'a WritebackOp list"
    by (simp add: length_concat comp_def)
  have exact: ?thesis if "0 < f" and "int f \<le> limit" and "limit mod int f = 0"
    using that k [OF that(1,2)] rows_chunks [OF k [OF that(1,2)], of "rowsOf wo"]
    by (simp add: SplitStatements_def length_chunks nth_chunks concat_chunks count
        list_all_iff del: One_nat_def)
  have rest: ?thesis if "0 < f" and "int f \<le> limit" and "limit mod int f \<noteq> 0"
    using that rows_single [of "rowsOf wo"]
    by (simp add: SplitStatements_def count list_all_iff)
  have panics: ?thesis if "\<not> (0 < f \<and> int f \<le> limit)"
    using that by (auto simp: SplitStatements_def)
  show ?thesis
  proof (cases "0 < f \<and> int f \<le> limit")
    case False
    then show ?thesis by (rule panics)
  next
    case True
    then have f: "0 < f" and l: "int f \<le> limit"
      by simp_all
    show ?thesis
    proof (cases "limit mod int f = 0")
      case True
      with f l show ?thesis by (rule exact)
    next
      case False
      with f l show ?thesis by (rule rest)
    qed
  qed
qed

theorem SplitStatements_batches_witness:
  "(0 < (4::nat) \<and> int 4 \<le> 12 \<and> (12::int) mod int 4 = 0)
   \<and> SplitStatements 4 12 exampleBatch =
       Inr [exampleBatch\<lparr>Data := Some [\<lparr>cn = ''a''\<rparr>, \<lparr>cn = ''b''\<rparr>, \<lparr>cn = ''c''\<rparr>]\<rparr>,
            exampleBatch\<lparr>Data := Some [\<lparr>cn = ''d''\<rparr>]\<rparr>]
   \<and> SplitStatements 4 40 exampleBatch = Inr [exampleBatch]
   \<and> length (chunks (nat (12 div int 4)) (rowsOf exampleBatch)) = 2
   \<and> (0 < (4::nat) \<and> int 4 \<le> 15 \<and> (15::int) mod int 4 \<noteq> 0)
   \<and> SplitStatements 4 15 exampleBatch =
       Inr [exampleBatch\<lparr>Data := Some [\<lparr>cn = ''a''\<rparr>]\<rparr>, exampleBatch\<lparr>Data := Some [\<lparr>cn = ''b''\<rparr>]\<rparr>,
            exampleBatch\<lparr>Data := Some [\<lparr>cn = ''c''\<rparr>]\<rparr>, exampleBatch\<lparr>Data := Some [\<lparr>cn = ''d''\<rparr>]\<rparr>]
   \<and> (3::int) < int 4
   \<and> SplitStatements 4 3 exampleBatch = Inl FieldsExceedLimit"
  using SplitStatements_batches [of 4 12 exampleBatch]
    SplitStatements_batches [of 4 40 exampleBatch]
    SplitStatements_batches [of 4 15 exampleBatch]
    SplitStatements_batches [of 4 3 exampleBatch]
  by (simp add: rowsOf_def exampleBatch_def chunks.simps)

end
